theory Spec2Isabelle
  imports Complex_Main
begin

section \<open>Python values used by \<open>pytubefix/cli.py\<close>\<close>

text \<open>
  Python \<open>str\<close> values are modelled as \<open>string\<close>. \<open>str_nat\<close> is the decimal
  rendering that an f-string gives a non-negative \<open>int\<close> (the loop counter of
  \<open>_unique_name\<close>).
\<close>

definition digit_char :: "nat \<Rightarrow> char" where
  "digit_char d = char_of (48 + d)"

function str_nat :: "nat \<Rightarrow> string" where
  "str_nat n = (if n < 10 then [digit_char n] else str_nat (n div 10) @ [digit_char (n mod 10)])"
  by pat_completeness auto
termination
  by (relation "measure id") auto

declare str_nat.simps [simp del]

text \<open>The number spelled by the decimal digits of a string, other characters skipped.\<close>

definition is_digit :: "char \<Rightarrow> bool" where
  "is_digit c = (48 \<le> (of_char c :: nat) \<and> (of_char c :: nat) \<le> 57)"

definition digits_value :: "string \<Rightarrow> nat" where
  "digits_value s = foldl (\<lambda>a c. 10 * a + ((of_char c :: nat) - 48)) 0 (filter is_digit s)"

text \<open>
  \<open>os.path.join(a, p)\<close> of \<open>posixpath\<close> for two components: an absolute \<open>p\<close>
  replaces \<open>a\<close>; otherwise a separator is inserted unless \<open>a\<close> is empty or already
  ends with one.
\<close>

definition startswith_sep :: "string \<Rightarrow> bool" where
  "startswith_sep p = (case p of [] \<Rightarrow> False | c # _ \<Rightarrow> c = CHR ''/'')"

definition endswith_sep :: "string \<Rightarrow> bool" where
  "endswith_sep a = (a \<noteq> [] \<and> last a = CHR ''/'')"

definition path_join :: "string \<Rightarrow> string \<Rightarrow> string" where
  "path_join a p =
     (if startswith_sep p then p
      else if a = [] \<or> endswith_sep a then a @ p
      else a @ ''/'' @ p)"

section \<open>The filename allocator \<open>_unique_name\<close>\<close>

text \<open>
  The directory is the finite list of paths that exist (\<open>os.path.exists\<close> is membership).
  \<open>unique_file_name\<close> and \<open>unique_file_path\<close> are the two f-strings of the loop body;
  \<open>unique_name_loop\<close> is the \<open>while True\<close> loop from a given counter, and
  \<open>unique_name\<close> is \<open>_unique_name\<close>, which starts it at 0.
\<close>

definition unique_file_name :: "string \<Rightarrow> string \<Rightarrow> nat \<Rightarrow> string" where
  "unique_file_name base media_type counter = base @ ''_'' @ media_type @ ''_'' @ str_nat counter"

definition unique_file_path :: "string \<Rightarrow> string \<Rightarrow> string \<Rightarrow> string \<Rightarrow> nat \<Rightarrow> string" where
  "unique_file_path base subtype media_type target counter =
     path_join target (unique_file_name base media_type counter @ ''.'' @ subtype)"

lemma digits_value_str_nat: "digits_value (str_nat n) = n"
proof (induction n rule: str_nat.induct)
  case (1 n)
  have dig: "is_digit (digit_char d) \<and> (of_char (digit_char d) :: nat) - 48 = d" if "d < 10" for d
    using that by (simp add: is_digit_def digit_char_def)
  show ?case
  proof (cases "n < 10")
    case True
    then show ?thesis
      using dig [of n] by (subst str_nat.simps) (simp add: digits_value_def)
  next
    case False
    have m: "n mod 10 < 10" by simp
    from False "1" have ih: "digits_value (str_nat (n div 10)) = n div 10" by simp
    have "digits_value (str_nat n) = 10 * digits_value (str_nat (n div 10)) + n mod 10"
      using False dig [OF m] by (subst str_nat.simps) (simp add: digits_value_def)
    with ih show ?thesis by simp
  qed
qed

lemma str_nat_inj: "str_nat m = str_nat n \<Longrightarrow> m = n"
  by (metis digits_value_str_nat)

lemma startswith_sep_append_Cons:
  "startswith_sep (b @ c # r) = startswith_sep (b @ [c])"
  by (cases b) (simp_all add: startswith_sep_def)

lemma path_join_same_head:
  "startswith_sep x = startswith_sep y \<Longrightarrow> path_join a x = path_join a y \<Longrightarrow> x = y"
  by (auto simp: path_join_def split: if_splits)

lemma unique_file_path_inj:
  assumes "unique_file_path base subtype media_type target j = unique_file_path base subtype media_type target k"
  shows "j = k"
proof -
  let ?n = "\<lambda>c. unique_file_name base media_type c @ ''.'' @ subtype"
  have hd: "startswith_sep (?n j) = startswith_sep (?n k)"
    unfolding unique_file_name_def append_assoc append_Cons append_Nil
    by (subst (1 2) startswith_sep_append_Cons) (rule refl)
  from assms have "?n j = ?n k"
    unfolding unique_file_path_def by (rule path_join_same_head [OF hd])
  then have "str_nat j = str_nat k"
    by (simp add: unique_file_name_def)
  then show ?thesis by (rule str_nat_inj)
qed

lemma finite_taken_counters:
  "finite {k. unique_file_path base subtype media_type target k \<in> set files}"
proof -
  have "inj (unique_file_path base subtype media_type target)"
    by (rule injI) (rule unique_file_path_inj)
  then have "finite (unique_file_path base subtype media_type target -` set files)"
    by (intro finite_vimageI) simp_all
  then show ?thesis by (simp add: vimage_def)
qed

function unique_name_loop ::
  "string \<Rightarrow> string \<Rightarrow> string \<Rightarrow> string \<Rightarrow> string list \<Rightarrow> nat \<Rightarrow> string" where
  "unique_name_loop base subtype media_type target files counter =
     (let file_name = unique_file_name base media_type counter;
          file_path = path_join target (file_name @ ''.'' @ subtype)
      in if file_path \<notin> set files then file_name
         else unique_name_loop base subtype media_type target files (counter + 1))"
  by pat_completeness auto
termination
proof (relation "measure (\<lambda>(base, subtype, media_type, target, files, counter).
          card {k. counter \<le> k \<and> unique_file_path base subtype media_type target k \<in> set files})",
       goal_cases)
  case 1
  show ?case by simp
next
  case (2 base subtype media_type target files counter file_name file_path)
  let ?S = "\<lambda>c. {k. c \<le> k \<and> unique_file_path base subtype media_type target k \<in> set files}"
  from 2 have mem: "unique_file_path base subtype media_type target counter \<in> set files"
    by (simp add: unique_file_path_def)
  have fin: "finite (?S counter)"
    using finite_taken_counters [of base subtype media_type target files] by simp
  have "counter \<in> ?S counter" "counter \<notin> ?S (counter + 1)" "?S (counter + 1) \<subseteq> ?S counter"
    using mem by auto
  then have "?S (counter + 1) \<subset> ?S counter"
    by blast
  then have "card (?S (counter + 1)) < card (?S counter)"
    using fin by (rule psubset_card_mono [rotated])
  then show ?case by simp
qed

declare unique_name_loop.simps [simp del]

definition unique_name :: "string \<Rightarrow> string \<Rightarrow> string \<Rightarrow> string \<Rightarrow> string list \<Rightarrow> string" where
  "unique_name base subtype media_type target files =
     unique_name_loop base subtype media_type target files 0"


text \<open>
  \<open>_unique_name\<close> only reads the directory. \<open>unique_names_seq n\<close> is the list of
  names returned by \<open>n\<close> calls in sequence with the same arguments: nothing is written
  between the calls, so every call sees the same directory.
  \<open>unique_names_created n\<close> is the same sequence of calls when the caller creates the
  file \<open>{name}.{subtype}\<close> in the target directory after each call.
\<close>

fun unique_names_seq :: "nat \<Rightarrow> string \<Rightarrow> string \<Rightarrow> string \<Rightarrow> string \<Rightarrow> string list \<Rightarrow> string list" where
  "unique_names_seq 0 base subtype media_type target files = []"
| "unique_names_seq (Suc n) base subtype media_type target files =
     unique_name base subtype media_type target files
       # unique_names_seq n base subtype media_type target files"

fun unique_names_created :: "nat \<Rightarrow> string \<Rightarrow> string \<Rightarrow> string \<Rightarrow> string \<Rightarrow> string list \<Rightarrow> string list" where
  "unique_names_created 0 base subtype media_type target files = []"
| "unique_names_created (Suc n) base subtype media_type target files =
     (let file_name = unique_name base subtype media_type target files
      in file_name # unique_names_created n base subtype media_type target
           (path_join target (file_name @ ''.'' @ subtype) # files))"

section \<open>Streams, videos and the stream query\<close>

text \<open>
  A \<open>Stream\<close> object as \<open>cli.py\<close> reads it: the attributes \<open>itag\<close>, \<open>subtype\<close>,
  \<open>resolution\<close> (such as \<open>720p\<close>; \<open>None\<close> on audio tracks), \<open>abr\<close> (such as
  \<open>128kbps\<close>; \<open>None\<close> on video-only tracks), \<open>is_progressive\<close>, \<open>filesize\<close> and
  \<open>default_filename\<close>. A \<open>YouTube\<close> object is read through \<open>title\<close> and
  \<open>streams\<close>, the catalog in its native order.
\<close>

record stream =
  itag :: int
  subtype :: string
  resolution :: "string option"
  abr :: "string option"
  is_progressive :: bool
  filesize :: int
  default_filename :: string

record youtube =
  title :: string
  streams :: "stream list"

datatype py_error = AttributeError | ZeroDivisionError | OverflowError

text \<open>
  Modelled from the spec: the \<open>StreamQuery\<close> class (\<open>filter\<close>, \<open>order_by\<close>,
  \<open>first\<close>, \<open>last\<close>, \<open>get_by_itag\<close>) is not part of \<open>cli.py\<close>. Section 4.2 of the
  specification fixes what the calls made by \<open>cli.py\<close> mean: \<open>filter\<close> keeps, in the
  catalog's native ordering, the streams that match every keyword given
  (\<open>progressive\<close>, \<open>subtype\<close>, \<open>resolution\<close>); \<open>first\<close> and \<open>last\<close> give the
  first and the last stream of a query and \<open>None\<close> ("NotFound") on an empty one, which
  \<open>cli.py\<close> tests with \<open>is None\<close>.
\<close>

definition filter_streams ::
  "bool option \<Rightarrow> string option \<Rightarrow> string option \<Rightarrow> stream list \<Rightarrow> stream list" where
  "filter_streams progressive subtype_kw resolution_kw q =
     filter (\<lambda>s. (case progressive of None \<Rightarrow> True | Some p \<Rightarrow> is_progressive s = p)
               \<and> (case subtype_kw of None \<Rightarrow> True | Some t \<Rightarrow> subtype s = t)
               \<and> (case resolution_kw of None \<Rightarrow> True | Some r \<Rightarrow> resolution s = Some r)) q"

definition first :: "stream list \<Rightarrow> stream option" where
  "first q = (case q of [] \<Rightarrow> None | s # _ \<Rightarrow> Some s)"

definition last_stream :: "stream list \<Rightarrow> stream option" where
  "last_stream q = (if q = [] then None else Some (last q))"

text \<open>
  Modelled from the spec: \<open>order_by(attribute)\<close>. Section 4.2 selects "the one with the
  numerically highest resolution (ties broken by catalog order - last wins)" with
  \<open>order_by("resolution").last()\<close> and the highest average bitrate with
  \<open>order_by("abr").last()\<close>: the query is sorted in ascending order of the number
  spelled by the attribute's digits (\<open>720\<close> for \<open>720p\<close>), the sort is stable, and
  streams whose attribute is \<open>None\<close> (section 3: both attributes are nullable) have
  no place in the order and are left out.
\<close>

definition order_by :: "(stream \<Rightarrow> string option) \<Rightarrow> stream list \<Rightarrow> stream list" where
  "order_by attribute q =
     sort_key (\<lambda>s. digits_value (the (attribute s))) (filter (\<lambda>s. attribute s \<noteq> None) q)"

text \<open>Modelled from the spec: \<open>get_by_itag\<close>, "exact match on identifier; NotFound if absent".\<close>

definition get_by_itag :: "int \<Rightarrow> stream list \<Rightarrow> stream option" where
  "get_by_itag i q = first (filter (\<lambda>s. itag s = i) q)"

section \<open>The world the program acts on\<close>

text \<open>
  The effects of \<open>cli.py\<close> are threaded through a record: the current directory, the
  paths that exist on disk, what has been written to standard output (one entry per
  \<open>print\<close> or \<open>write\<close>), the transfers performed (the itag of the stream and the path
  written) and the external commands run.
\<close>

record world =
  cwd :: string
  files :: "string list"
  stdout :: "string list"
  transfers :: "(int \<times> string) list"
  commands :: "string list list"

definition print :: "string \<Rightarrow> world \<Rightarrow> world" where
  "print s w = w\<lparr>stdout := stdout w @ [s @ [CHR 0x0A]]\<rparr>"

definition stdout_write :: "string \<Rightarrow> world \<Rightarrow> world" where
  "stdout_write s w = w\<lparr>stdout := stdout w @ [s]\<rparr>"

definition str_int :: "int \<Rightarrow> string" where
  "str_int i = (if i < 0 then ''-'' @ str_nat (nat (- i)) else str_nat (nat i))"

definition str_optional :: "string option \<Rightarrow> string" where
  "str_optional x = (case x of None \<Rightarrow> ''None'' | Some s \<Rightarrow> s)"

text \<open>\<open>x or y\<close> on an optional string: \<open>None\<close> and the empty string are both false.\<close>

definition or_else :: "string option \<Rightarrow> string \<Rightarrow> string" where
  "or_else x y = (case x of None \<Rightarrow> y | Some s \<Rightarrow> if s = [] then y else s)"

text \<open>
  Modelled from the spec: the \<open>Stream\<close> methods \<open>get_file_path\<close>, \<open>exists_at_path\<close>
  and \<open>download\<close> are not part of \<open>cli.py\<close>. Section 3: a download target is a
  "directory path + optional explicit filename; resolved to a concrete file path before
  transfer" (the stream's default file name when no name is given, the current directory
  when no directory is given). Section 4.3: a path "already exists on disk" or the stream
  is transferred to it, after which the file exists.
\<close>

definition get_file_path :: "stream \<Rightarrow> string option \<Rightarrow> string option \<Rightarrow> world \<Rightarrow> string" where
  "get_file_path s filename output_path w =
     path_join (or_else output_path (cwd w)) (or_else filename (default_filename s))"

definition exists_at_path :: "stream \<Rightarrow> string \<Rightarrow> world \<Rightarrow> bool" where
  "exists_at_path s file_path w = (file_path \<in> set (files w))"

definition stream_download :: "stream \<Rightarrow> string option \<Rightarrow> string option \<Rightarrow> world \<Rightarrow> world" where
  "stream_download s output_path filename w =
     (let file_path = get_file_path s filename output_path w
      in w\<lparr>files := file_path # files w, transfers := transfers w @ [(itag s, file_path)]\<rparr>)"

text \<open>
  Modelled from the spec: \<open>subprocess.run\<close> of the muxing command (section 4.3: "combining
  the two files into a single output"; its exit status is not looked at). The command is
  recorded and its last argument, the output path, exists afterwards.
\<close>

definition subprocess_run :: "string list \<Rightarrow> world \<Rightarrow> world" where
  "subprocess_run command w = w\<lparr>files := last command # files w, commands := commands w @ [command]\<rparr>"

section \<open>The download routines of \<open>cli.py\<close>\<close>

text \<open>\<open>_download\<close> (lines 81-90).\<close>

definition download :: "stream \<Rightarrow> string option \<Rightarrow> string option \<Rightarrow> world \<Rightarrow> world" where
  "download s target filename w =
     (let filesize_megabytes = filesize s div 1048576;
          w1 = print (or_else filename (default_filename s) @ '' | '' @ str_int filesize_megabytes @ '' MB'') w;
          file_path = get_file_path s filename target w1
      in if exists_at_path s file_path w1
         then print (''Already downloaded at:'' @ [CHR 0x0A] @ file_path) w1
         else stdout_write [CHR 0x0A] (stream_download s target filename w1))"

text \<open>
  \<open>ffmpeg_process\<close> (lines 114-164). \<open>ffmpeg_video_stream\<close> is the choice of
  \<open>video_stream\<close> (lines 131-139): reading \<open>.resolution\<close> of the \<open>None\<close> that
  \<open>last()\<close> gives on an empty query raises \<open>AttributeError\<close>.
  \<open>ffmpeg_audio_stream\<close> is line 145.
\<close>

definition ffmpeg_video_stream :: "stream list \<Rightarrow> string option \<Rightarrow> py_error + stream option" where
  "ffmpeg_video_stream q resolution_arg =
     (if resolution_arg = None \<or> resolution_arg = Some ''best'' then
        (let highest_quality_stream = last_stream (order_by resolution (filter_streams (Some False) None None q));
             mp4_stream = last_stream (order_by resolution (filter_streams (Some False) (Some ''mp4'') None q))
         in case highest_quality_stream of
              None \<Rightarrow> Inl AttributeError
            | Some h \<Rightarrow>
               (case mp4_stream of
                  None \<Rightarrow> Inl AttributeError
                | Some m \<Rightarrow> if resolution h = resolution m then Inr (Some m) else Inr (Some h)))
      else Inr (first (filter_streams (Some False) None resolution_arg q)))"

definition ffmpeg_audio_stream :: "stream list \<Rightarrow> stream option" where
  "ffmpeg_audio_stream q = last_stream (order_by abr (filter_streams (Some False) None None q))"

definition ffmpeg_command :: "string \<Rightarrow> string \<Rightarrow> string \<Rightarrow> string \<Rightarrow> string list" where
  "ffmpeg_command video_path audio_path target_dir yt_title =
     [''ffmpeg'', ''-i'', video_path, ''-i'', audio_path, ''-c:v'', ''copy'', ''-c:a'', ''aac'',
      ''-strict'', ''experimental'', target_dir @ ''/'' @ yt_title @ ''.mp4'']"

definition ffmpeg_process ::
  "(string \<Rightarrow> youtube) \<Rightarrow> string \<Rightarrow> string option \<Rightarrow> string option \<Rightarrow> world \<Rightarrow> py_error + world" where
  "ffmpeg_process YouTube url resolution_arg target w =
     (let yt = YouTube url;
          target_dir = or_else target (cwd w)
      in case ffmpeg_video_stream (streams yt) resolution_arg of
           Inl e \<Rightarrow> Inl e
         | Inr None \<Rightarrow> Inr (print (''No streams found for resolution '' @ str_optional resolution_arg) w)
         | Inr (Some video_stream) \<Rightarrow>
            (let audio_stream_opt = ffmpeg_audio_stream (streams yt);
                 video_file_name = unique_name (title yt) ''mp4'' ''video'' target_dir (files w);
                 audio_file_name = unique_name (title yt) ''mp4'' ''audio'' target_dir (files w);
                 video_path = get_file_path video_stream (Some video_file_name) (Some target_dir) w
             in case audio_stream_opt of
                  None \<Rightarrow> Inl AttributeError
                | Some audio_stream \<Rightarrow>
                   (let audio_path = get_file_path audio_stream (Some audio_file_name) (Some target_dir) w
                    in if video_path \<in> set (files w) \<and> audio_path \<in> set (files w)
                       then Inr (print ''Already downloaded both video and audio.'' w)
                       else
                         (let w1 = download video_stream (Some target_dir) (Some video_file_name) w;
                              w2 = download audio_stream (Some target_dir) (Some audio_file_name) w1
                          in Inr (subprocess_run
                                    (ffmpeg_command video_path audio_path target_dir (title yt)) w2)))))"

text \<open>\<open>download_by_resolution\<close> (lines 166-184).\<close>

definition download_by_resolution ::
  "(string \<Rightarrow> youtube) \<Rightarrow> string \<Rightarrow> string \<Rightarrow> string option \<Rightarrow> world \<Rightarrow> world" where
  "download_by_resolution YouTube url resolution_arg target w =
     (let w1 = print (''Downloading '' @ resolution_arg @ ''...'') w;
          yt = YouTube url
      in case first (filter_streams None None (Some resolution_arg) (streams yt)) of
           None \<Rightarrow> print (''No stream found for resolution '' @ resolution_arg) w1
         | Some s \<Rightarrow> download s target None w1)"

text \<open>\<open>download_highest_resolution_progressive\<close> (lines 186-204).\<close>

definition download_highest_resolution_progressive ::
  "(string \<Rightarrow> youtube) \<Rightarrow> string \<Rightarrow> string \<Rightarrow> string option \<Rightarrow> world \<Rightarrow> world" where
  "download_highest_resolution_progressive YouTube url resolution_arg target w =
     (let w1 = print ''Downloading highest resolution progressive stream...'' w;
          yt = YouTube url
      in case last_stream (order_by resolution (filter_streams (Some True) None None (streams yt))) of
           None \<Rightarrow> print ''No progressive stream found.'' w1
         | Some s \<Rightarrow> download s target None w1)"

text \<open>\<open>download_by_itag\<close> (lines 206-224).\<close>

definition download_by_itag ::
  "(string \<Rightarrow> youtube) \<Rightarrow> string \<Rightarrow> int \<Rightarrow> string option \<Rightarrow> world \<Rightarrow> world" where
  "download_by_itag YouTube url itag_arg target w =
     (let yt = YouTube url
      in case get_by_itag itag_arg (streams yt) of
           None \<Rightarrow> print (''No stream found with itag '' @ str_int itag_arg @ ''.'') w
         | Some s \<Rightarrow> download s target None (print (''Downloading stream with itag '' @ str_int itag_arg @ ''...'') w))"

section \<open>The command-line entry point\<close>

text \<open>
  The parsed arguments that \<open>main\<close> reads: \<open>args.url\<close>, \<open>args.playlist\<close> and
  \<open>args.audio\<close>. \<open>truthy\<close> is the test \<open>if x:\<close> on an optional string.
\<close>

record args =
  arg_url :: "string option"
  arg_playlist :: "string option"
  arg_audio :: bool

definition truthy :: "string option \<Rightarrow> bool" where
  "truthy x = (case x of None \<Rightarrow> False | Some s \<Rightarrow> s \<noteq> [])"

text \<open>
  \<open>download_video\<close> and \<open>download_audio\<close> (lines 269-281), \<open>download_playlist_video\<close>
  and \<open>download_playlist_audio\<close> (lines 283-293). The library selectors
  \<open>get_highest_resolution\<close> and \<open>get_audio_only\<close> and the \<open>Playlist\<close> lookup are
  parameters; calling \<open>.download()\<close> on the \<open>None\<close> of an empty selection raises
  \<open>AttributeError\<close>.
\<close>

definition download_selected :: "stream option \<Rightarrow> world \<Rightarrow> py_error + world" where
  "download_selected ys w =
     (case ys of None \<Rightarrow> Inl AttributeError | Some s \<Rightarrow> Inr (stream_download s None None w))"

definition download_video ::
  "(string \<Rightarrow> youtube) \<Rightarrow> (stream list \<Rightarrow> stream option) \<Rightarrow> string \<Rightarrow> world \<Rightarrow> py_error + world" where
  "download_video YouTube get_highest_resolution url_arg w =
     (let yt = YouTube url_arg;
          w1 = print (title yt) w
      in download_selected (get_highest_resolution (streams yt)) w1)"

definition download_audio ::
  "(string \<Rightarrow> youtube) \<Rightarrow> (stream list \<Rightarrow> stream option) \<Rightarrow> string \<Rightarrow> world \<Rightarrow> py_error + world" where
  "download_audio YouTube get_audio_only url_arg w =
     (let yt = YouTube url_arg;
          w1 = print (title yt) w
      in download_selected (get_audio_only (streams yt)) w1)"

fun download_each :: "(stream list \<Rightarrow> stream option) \<Rightarrow> youtube list \<Rightarrow> world \<Rightarrow> py_error + world" where
  "download_each select [] w = Inr w"
| "download_each select (video # videos) w =
     (case download_selected (select (streams video)) w of
        Inl e \<Rightarrow> Inl e
      | Inr w1 \<Rightarrow> download_each select videos w1)"

definition download_playlist_video ::
  "(string \<Rightarrow> youtube list) \<Rightarrow> (stream list \<Rightarrow> stream option) \<Rightarrow> string \<Rightarrow> world \<Rightarrow> py_error + world" where
  "download_playlist_video Playlist get_highest_resolution url_arg w =
     download_each get_highest_resolution (Playlist url_arg) w"

definition download_playlist_audio ::
  "(string \<Rightarrow> youtube list) \<Rightarrow> (stream list \<Rightarrow> stream option) \<Rightarrow> string \<Rightarrow> world \<Rightarrow> py_error + world" where
  "download_playlist_audio Playlist get_audio_only url_arg w =
     download_each get_audio_only (Playlist url_arg) w"

text \<open>
  \<open>main\<close> after \<open>parse_args\<close> (lines 319-333): \<open>main_url\<close> is the block "Handle
  URL-based download", \<open>main_playlist\<close> the block "Handle Playlist-based download", and
  \<open>main\<close> runs one after the other.
\<close>

definition main_url ::
  "(string \<Rightarrow> youtube) \<Rightarrow> (stream list \<Rightarrow> stream option) \<Rightarrow> (stream list \<Rightarrow> stream option)
     \<Rightarrow> args \<Rightarrow> world \<Rightarrow> py_error + world" where
  "main_url YouTube get_highest_resolution get_audio_only a w =
     (if truthy (arg_url a) then
        (case (if arg_audio a then download_audio YouTube get_audio_only (the (arg_url a)) w
               else download_video YouTube get_highest_resolution (the (arg_url a)) w) of
           Inl e \<Rightarrow> Inl e
         | Inr w1 \<Rightarrow> Inr (print (''URL processed successfully!'' @ [CHR 0x0A]) w1))
      else Inr w)"

definition main_playlist ::
  "(string \<Rightarrow> youtube list) \<Rightarrow> (stream list \<Rightarrow> stream option) \<Rightarrow> args \<Rightarrow> world \<Rightarrow> py_error + world" where
  "main_playlist Playlist get_audio_only a w =
     (if truthy (arg_playlist a) then
        (case (if arg_audio a then download_playlist_audio Playlist get_audio_only (the (arg_playlist a)) w
               else Inr (print (''Downloading playlist: '' @ the (arg_playlist a)) w)) of
           Inl e \<Rightarrow> Inl e
         | Inr w1 \<Rightarrow> Inr (print (''Playlist processed successfully!'' @ [CHR 0x0A]) w1))
      else Inr w)"

definition main ::
  "(string \<Rightarrow> youtube) \<Rightarrow> (string \<Rightarrow> youtube list) \<Rightarrow> (stream list \<Rightarrow> stream option)
     \<Rightarrow> (stream list \<Rightarrow> stream option) \<Rightarrow> args \<Rightarrow> world \<Rightarrow> py_error + world" where
  "main YouTube Playlist get_highest_resolution get_audio_only a w =
     (case main_url YouTube get_highest_resolution get_audio_only a w of
        Inl e \<Rightarrow> Inl e
      | Inr w1 \<Rightarrow> main_playlist Playlist get_audio_only a w1)"

section \<open>The progress renderer\<close>

text \<open>
  \<open>display_progress_bar\<close> (lines 47-74) computes in Python floats. A float is modelled
  by the rational it denotes, and the model is exact about which operations raise:
  converting an \<open>int\<close> to a float (\<open>float(n)\<close>, or an \<open>int\<close> operand of a float
  operation) raises \<open>OverflowError\<close> when \<open>n\<close> rounds beyond the largest double, that
  is when \<open>\<bar>n\<bar> \<ge> 2^1024 - 2^970\<close>; \<open>int(x)\<close> truncates towards zero and raises
  \<open>OverflowError\<close> on an infinite product; a float division by \<open>0.0\<close> raises
  \<open>ZeroDivisionError\<close>. The rounding of the individual double operations is not
  modelled: \<open>round\<close> (to the nearest integer, halves to the even one) and the digits of
  the percentage are those of exact arithmetic. The terminal width
  (\<open>shutil.get_terminal_size().columns\<close>) is a parameter.
\<close>

definition double_overflow :: int where
  "double_overflow = 2 ^ 1024 - 2 ^ 970"

definition float_of_int :: "int \<Rightarrow> py_error + rat" where
  "float_of_int n = (if \<bar>n\<bar> < double_overflow then Inr (of_int n) else Inl OverflowError)"

definition int_trunc :: "rat \<Rightarrow> int" where
  "int_trunc x = (if x < 0 then - \<lfloor>- x\<rfloor> else \<lfloor>x\<rfloor>)"

definition int_of_float :: "rat \<Rightarrow> py_error + int" where
  "int_of_float x = (if of_int double_overflow \<le> \<bar>x\<bar> then Inl OverflowError else Inr (int_trunc x))"

definition py_round :: "rat \<Rightarrow> int" where
  "py_round x =
     (let f = \<lfloor>x\<rfloor>; d = x - of_int f
      in if d < 1 / 2 then f else if 1 / 2 < d then f + 1 else if even f then f else f + 1)"

definition str_float1 :: "rat \<Rightarrow> string" where
  "str_float1 x =
     (let tenths = nat \<bar>py_round (10 * x)\<bar>
      in (if x < 0 then ''-'' else []) @ str_nat (tenths div 10) @ ''.'' @ str_nat (tenths mod 10))"

text \<open>\<open>s * n\<close> on a string: no copy at all for a negative \<open>n\<close>.\<close>

definition str_times :: "string \<Rightarrow> int \<Rightarrow> string" where
  "str_times s n = concat (replicate (nat n) s)"

definition display_progress_bar ::
  "int \<Rightarrow> int \<Rightarrow> string \<Rightarrow> rat \<Rightarrow> int \<Rightarrow> world \<Rightarrow> py_error + world" where
  "display_progress_bar bytes_received filesize_arg ch scale columns w =
     (case float_of_int columns of Inl e \<Rightarrow> Inl e | Inr c \<Rightarrow>
      case int_of_float (c * scale) of Inl e \<Rightarrow> Inl e | Inr max_width \<Rightarrow>
      case float_of_int filesize_arg of Inl e \<Rightarrow> Inl e | Inr size1 \<Rightarrow>
      case float_of_int (max_width * bytes_received) of Inl e \<Rightarrow> Inl e | Inr part \<Rightarrow>
      if size1 = 0 then Inl ZeroDivisionError else
      (let filled = py_round (part / size1);
           remaining = max_width - filled;
           progress_bar = str_times ch filled @ str_times '' '' remaining
       in case float_of_int bytes_received of Inl e \<Rightarrow> Inl e | Inr received \<Rightarrow>
          (let percent = 100 * received / size1;
               text = [CHR 0x20, CHR 0xE2, CHR 0x86, CHR 0xB3, CHR 0x20] @ ''|'' @ progress_bar
                        @ ''| '' @ str_float1 percent @ ''%'' @ [CHR 0x0D]
           in Inr (stdout_write text w))))"

text \<open>\<open>on_progress\<close> (lines 76-79), with the default fill character and scale.\<close>

definition on_progress :: "stream \<Rightarrow> int \<Rightarrow> int \<Rightarrow> world \<Rightarrow> py_error + world" where
  "on_progress s bytes_remaining columns w =
     (let filesize_arg = filesize s;
          bytes_received = filesize_arg - bytes_remaining
      in display_progress_bar bytes_received filesize_arg [CHR 0xE2, CHR 0x96, CHR 0x88] (11 / 20)
           columns w)"

section \<open>Notions used in the statements\<close>

text \<open>The number by which \<open>order_by("resolution")\<close> ranks a stream.\<close>

definition res_value :: "stream \<Rightarrow> nat" where
  "res_value s = digits_value (the (resolution s))"

text \<open>The line \<open>_download\<close> prints first (line 83).\<close>

definition download_header :: "stream \<Rightarrow> string option \<Rightarrow> string" where
  "download_header s filename =
     or_else filename (default_filename s) @ '' | '' @ str_int (filesize s div 1048576) @ '' MB''"

text \<open>The number of path separators in a string.\<close>

definition count_sep :: "string \<Rightarrow> nat" where
  "count_sep s = length (filter (\<lambda>c. c = CHR ''/'') s)"

section \<open>Example catalogs\<close>

text \<open>
  Concrete streams, videos and worlds on which the routines are evaluated:
  \<open>progressive_catalog\<close> is the catalog of the specification's scenario (itag 18 at
  360p and itag 22 at 720p, both progressive).
\<close>

definition example_stream ::
  "int \<Rightarrow> string \<Rightarrow> string option \<Rightarrow> string option \<Rightarrow> bool \<Rightarrow> stream" where
  "example_stream i st res rate prog =
     \<lparr>itag = i, subtype = st, resolution = res, abr = rate, is_progressive = prog,
      filesize = 5242880, default_filename = ''clip'' @ str_int i @ ''.'' @ st\<rparr>"

definition example_youtube :: "stream list \<Rightarrow> string \<Rightarrow> youtube" where
  "example_youtube q url = \<lparr>title = ''clip'', streams = q\<rparr>"

definition example_world :: "string list \<Rightarrow> world" where
  "example_world fs = \<lparr>cwd = ''/home/u'', files = fs, stdout = [], transfers = [], commands = []\<rparr>"

definition progressive_catalog :: "stream list" where
  "progressive_catalog =
     [example_stream 18 ''mp4'' (Some ''360p'') (Some ''96kbps'') True,
      example_stream 22 ''mp4'' (Some ''720p'') (Some ''192kbps'') True]"

definition mixed_catalog :: "stream list" where
  "mixed_catalog =
     [example_stream 22 ''mp4'' (Some ''720p'') (Some ''192kbps'') True,
      example_stream 136 ''mp4'' (Some ''720p'') None False]"

definition webm_catalog :: "stream list" where
  "webm_catalog =
     [example_stream 248 ''webm'' (Some ''1080p'') None False,
      example_stream 251 ''webm'' None (Some ''160kbps'') False]"

definition adaptive_catalog :: "stream list" where
  "adaptive_catalog =
     [example_stream 137 ''mp4'' (Some ''1080p'') None False,
      example_stream 140 ''mp4'' None (Some ''128kbps'') False]"

section \<open>Properties of the filename allocator\<close>

lemma unique_name_loop_spec:
  "\<exists>c\<ge>counter. unique_name_loop base subtype_arg media_type target existing counter = unique_file_name base media_type c
     \<and> unique_file_path base subtype_arg media_type target c \<notin> set existing
     \<and> (\<forall>k. counter \<le> k \<and> k < c \<longrightarrow> unique_file_path base subtype_arg media_type target k \<in> set existing)"
proof (induction base subtype_arg media_type target existing counter rule: unique_name_loop.induct)
  case (1 base subtype_arg media_type target existing counter)
  let ?p = "unique_file_path base subtype_arg media_type target"
  show ?case
  proof (cases "?p counter \<in> set existing")
    case False
    then have "unique_name_loop base subtype_arg media_type target existing counter = unique_file_name base media_type counter"
      by (subst unique_name_loop.simps) (simp add: unique_file_path_def)
    with False show ?thesis by auto
  next
    case True
    then have eq: "unique_name_loop base subtype_arg media_type target existing counter
        = unique_name_loop base subtype_arg media_type target existing (counter + 1)"
      by (subst unique_name_loop.simps) (simp add: unique_file_path_def)
    from True have "\<exists>c\<ge>counter + 1. unique_name_loop base subtype_arg media_type target existing (counter + 1) = unique_file_name base media_type c
     \<and> ?p c \<notin> set existing
     \<and> (\<forall>k. counter + 1 \<le> k \<and> k < c \<longrightarrow> ?p k \<in> set existing)"
      by (intro "1.IH" [OF refl refl]) (simp add: unique_file_path_def)
    then obtain c where c: "counter + 1 \<le> c"
       "unique_name_loop base subtype_arg media_type target existing (counter + 1) = unique_file_name base media_type c"
       "?p c \<notin> set existing" "\<forall>k. counter + 1 \<le> k \<and> k < c \<longrightarrow> ?p k \<in> set existing"
      by blast
    have "\<forall>k. counter \<le> k \<and> k < c \<longrightarrow> ?p k \<in> set existing"
    proof (intro allI impI)
      fix k assume "counter \<le> k \<and> k < c"
      then show "?p k \<in> set existing"
        using True c(4) by (cases "k = counter") auto
    qed
    with c eq show ?thesis
      by (intro exI [of _ c]) simp
  qed
qed

text \<open>
  C6: \<open>_unique_name\<close> returns \<open>{base}_{media_type}_{c}\<close> (no extension) where \<open>c\<close>
  is the smallest counter, counting from 0, whose path \<open>{base}_{media_type}_{c}.{subtype}\<close>
  joined to the target directory does not exist. Being a function of its arguments and of
  the directory contents, the result is deterministic.
\<close>

theorem unique_name_smallest_free:
  "\<exists>c. unique_name base subtype_arg media_type target existing = base @ ''_'' @ media_type @ ''_'' @ str_nat c
     \<and> path_join target (base @ ''_'' @ media_type @ ''_'' @ str_nat c @ ''.'' @ subtype_arg) \<notin> set existing
     \<and> (\<forall>k<c. path_join target (base @ ''_'' @ media_type @ ''_'' @ str_nat k @ ''.'' @ subtype_arg) \<in> set existing)"
  using unique_name_loop_spec [of 0 base subtype_arg media_type target existing]
  by (simp add: unique_name_def unique_file_name_def unique_file_path_def)

theorem unique_name_smallest_free_witness:
  "unique_name ''v'' ''mp4'' ''video'' ''d'' [''d/v_video_0.mp4''] = ''v_video_1''
   \<and> (\<exists>c. unique_name ''v'' ''mp4'' ''video'' ''d'' [''d/v_video_0.mp4'']
            = ''v'' @ ''_'' @ ''video'' @ ''_'' @ str_nat c
     \<and> path_join ''d'' (''v'' @ ''_'' @ ''video'' @ ''_'' @ str_nat c @ ''.'' @ ''mp4'')
           \<notin> set [''d/v_video_0.mp4'']
     \<and> (\<forall>k<c. path_join ''d'' (''v'' @ ''_'' @ ''video'' @ ''_'' @ str_nat k @ ''.'' @ ''mp4'')
           \<in> set [''d/v_video_0.mp4'']))"
proof -
  have "unique_name ''v'' ''mp4'' ''video'' ''d'' [''d/v_video_0.mp4''] = ''v_video_1''"
    by code_simp
  then show ?thesis
    by (intro conjI unique_name_smallest_free)
qed

lemma unique_name_first_free:
  assumes "\<forall>k. unique_file_path base subtype_arg media_type target k \<in> set existing \<longleftrightarrow> k < c"
  shows "unique_name base subtype_arg media_type target existing = unique_file_name base media_type c"
proof -
  let ?p = "unique_file_path base subtype_arg media_type target"
  obtain c' where c': "unique_name base subtype_arg media_type target existing = unique_file_name base media_type c'"
      "?p c' \<notin> set existing" "\<forall>k. k < c' \<longrightarrow> ?p k \<in> set existing"
    using unique_name_loop_spec [of 0 base subtype_arg media_type target existing]
    by (auto simp: unique_name_def)
  from c'(2) assms have "c \<le> c'" by (simp add: not_less)
  moreover from c'(3) assms have "c' \<le> c" by (meson less_irrefl not_le)
  ultimately show ?thesis using c'(1) by simp
qed

lemma unique_file_name_inj:
  "unique_file_name base media_type j = unique_file_name base media_type k \<Longrightarrow> j = k"
  by (simp add: unique_file_name_def str_nat_inj)

lemma unique_names_created_from:
  assumes "\<forall>k. unique_file_path base subtype_arg media_type target k \<in> set existing \<longleftrightarrow> k < c"
  shows "unique_names_created n base subtype_arg media_type target existing
           = map (unique_file_name base media_type) [c..<c + n]"
  using assms
proof (induction n arbitrary: existing c)
  case 0
  show ?case by simp
next
  case (Suc n)
  let ?p = "unique_file_path base subtype_arg media_type target"
  have name: "unique_name base subtype_arg media_type target existing = unique_file_name base media_type c"
    using Suc.prems by (rule unique_name_first_free)
  have inv: "\<forall>k. ?p k \<in> set (?p c # existing) \<longleftrightarrow> k < Suc c"
    using Suc.prems unique_file_path_inj [of base subtype_arg media_type target _ c]
    by (auto simp: less_Suc_eq)
  have "unique_names_created n base subtype_arg media_type target (?p c # existing)
           = map (unique_file_name base media_type) [Suc c..<Suc c + n]"
    using inv by (rule Suc.IH)
  then show ?case
    using name by (simp add: unique_file_path_def upt_rec [of c])
qed

text \<open>
  C7 (as amended): called \<open>n\<close> times in sequence against an initially empty directory
  with the same arguments, where the file \<open>{name}.{subtype}\<close> is created in the target
  directory after each call, \<open>_unique_name\<close> returns the counters \<open>0, 1, ..., n-1\<close>
  in that order, and the names are pairwise distinct.
\<close>

theorem unique_names_created_counters:
  "unique_names_created n base subtype_arg media_type target []
     = map (\<lambda>c. base @ ''_'' @ media_type @ ''_'' @ str_nat c) [0..<n]
   \<and> distinct (unique_names_created n base subtype_arg media_type target [])"
proof -
  have eq: "unique_names_created n base subtype_arg media_type target []
     = map (unique_file_name base media_type) [0..<n]"
    using unique_names_created_from [of base subtype_arg media_type target "[]" 0 n] by simp
  have "distinct (map (unique_file_name base media_type) [0..<n])"
    by (simp add: distinct_map inj_on_def) (metis unique_file_name_inj)
  with eq show ?thesis
    by (simp add: unique_file_name_def)
qed

text \<open>
  C7 as stated fails: \<open>_unique_name\<close> creates nothing, so two calls in sequence
  against the empty directory both return counter 0.
\<close>

theorem unique_names_seq_counterexample:
  "unique_names_seq 2 ''v'' ''mp4'' ''video'' ''d'' [] = [''v_video_0'', ''v_video_0'']
   \<and> \<not> distinct (unique_names_seq 2 ''v'' ''mp4'' ''video'' ''d'' [])"
  by code_simp

section \<open>Stream selection\<close>

lemma sort_key_eq_Nil: "sort_key f xs = [] \<longleftrightarrow> xs = []"
  by (metis length_0_conv length_sort)

lemma last_insort_key:
  "last (insort_key f x ys) = (if \<forall>y\<in>set ys. f y < f x then x else last ys)"
  by (induction ys) (auto simp: not_less)

lemma last_sort_key_split:
  "xs \<noteq> [] \<Longrightarrow>
     \<exists>pre post. xs = pre @ last (sort_key f xs) # post
        \<and> (\<forall>x\<in>set pre. f x \<le> f (last (sort_key f xs)))
        \<and> (\<forall>x\<in>set post. f x < f (last (sort_key f xs)))"
proof (induction xs)
  case Nil
  then show ?case by simp
next
  case (Cons x xs)
  show ?case
  proof (cases "\<forall>y\<in>set xs. f y < f x")
    case True
    then have "last (sort_key f (x # xs)) = x"
      by (simp add: last_insort_key)
    with True show ?thesis
      by (intro exI [of _ "[]"] exI [of _ xs]) simp
  next
    case False
    then have ne: "xs \<noteq> []" by auto
    let ?s = "last (sort_key f xs)"
    from False have l: "last (sort_key f (x # xs)) = ?s"
      by (auto simp: last_insort_key)
    from Cons.IH [OF ne] obtain pre post where d: "xs = pre @ ?s # post"
      "\<forall>x\<in>set pre. f x \<le> f ?s" "\<forall>x\<in>set post. f x < f ?s"
      by blast
    from False obtain y where y: "y \<in> set xs" "f x \<le> f y" by (auto simp: not_less)
    from y(1) d have "f y \<le> f ?s"
      by (metis Un_iff insert_iff list.set(2) order_less_imp_le order_refl set_append)
    with y(2) have "f x \<le> f ?s" by simp
    with d l show ?thesis
      by (intro exI [of _ "x # pre"] exI [of _ post]) simp
  qed
qed

lemma last_stream_order_by:
  "last_stream (order_by attribute q) =
     (if filter (\<lambda>s. attribute s \<noteq> None) q = [] then None
      else Some (last (sort_key (\<lambda>s. digits_value (the (attribute s))) (filter (\<lambda>s. attribute s \<noteq> None) q))))"
  by (simp add: last_stream_def order_by_def sort_key_eq_Nil del: not_None_eq)

lemma last_stream_order_by_None:
  "last_stream (order_by attribute q) = None \<longleftrightarrow> (\<forall>s\<in>set q. attribute s = None)"
  by (auto simp: last_stream_order_by filter_empty_conv)

lemma last_stream_order_by_Some:
  assumes "last_stream (order_by attribute q) = Some s"
  shows "\<exists>pre post. filter (\<lambda>s. attribute s \<noteq> None) q = pre @ s # post
        \<and> (\<forall>x\<in>set pre. digits_value (the (attribute x)) \<le> digits_value (the (attribute s)))
        \<and> (\<forall>x\<in>set post. digits_value (the (attribute x)) < digits_value (the (attribute s)))"
proof -
  let ?xs = "filter (\<lambda>s. attribute s \<noteq> None) q"
  let ?f = "\<lambda>s. digits_value (the (attribute s))"
  from assms have ne: "?xs \<noteq> []" and s: "s = last (sort_key ?f ?xs)"
    by (auto simp: last_stream_order_by split: if_splits)
  from last_sort_key_split [OF ne, of ?f] show ?thesis
    unfolding s by blast
qed

lemma filter_streams_progressive:
  "filter_streams (Some p) None None q = filter (\<lambda>s. is_progressive s = p) q"
  by (simp add: filter_streams_def)

lemma first_filter_find: "first (filter P q) = find P q"
  by (induction q) (simp_all add: first_def)

text \<open>
  C5: \<open>download_highest_resolution_progressive\<close> downloads the progressive stream with
  the numerically highest resolution, the last one in catalog order among equals (every
  ranked stream before it is at most as high, every one after it strictly lower), and
  prints "No progressive stream found." when the catalog has no progressive stream
  (none that carries a resolution).
\<close>

theorem download_highest_resolution_progressive_selects:
  "let q = streams (YouTube url);
       w1 = print ''Downloading highest resolution progressive stream...'' w;
       ranked = filter (\<lambda>s. is_progressive s \<and> resolution s \<noteq> None) q
   in ((\<forall>s\<in>set q. \<not> is_progressive s) \<longrightarrow> ranked = [])
    \<and> (if ranked = []
        then download_highest_resolution_progressive YouTube url resolution_arg target w
               = print ''No progressive stream found.'' w1
        else \<exists>pre s post. ranked = pre @ s # post
               \<and> (\<forall>x\<in>set pre. res_value x \<le> res_value s)
               \<and> (\<forall>x\<in>set post. res_value x < res_value s)
               \<and> download_highest_resolution_progressive YouTube url resolution_arg target w
                   = download s target None w1)"
proof -
  let ?q = "streams (YouTube url)"
  let ?ranked = "filter (\<lambda>s. is_progressive s \<and> resolution s \<noteq> None) ?q"
  let ?sel = "last_stream (order_by resolution (filter_streams (Some True) None None ?q))"
  have ranked: "filter (\<lambda>s. resolution s \<noteq> None) (filter_streams (Some True) None None ?q) = ?ranked"
    by (simp add: filter_streams_progressive conj_commute del: not_None_eq)
  have a: "(\<forall>s\<in>set ?q. \<not> is_progressive s) \<longrightarrow> ?ranked = []"
    by (simp add: filter_empty_conv)
  have b: "download_highest_resolution_progressive YouTube url resolution_arg target w
               = print ''No progressive stream found.'' (print ''Downloading highest resolution progressive stream...'' w)"
    if "?ranked = []"
  proof -
    from that have "?sel = None"
      using ranked by (simp add: last_stream_order_by del: not_None_eq)
    then show ?thesis
      by (simp add: download_highest_resolution_progressive_def)
  qed
  have c: "\<exists>pre s post. ?ranked = pre @ s # post
               \<and> (\<forall>x\<in>set pre. res_value x \<le> res_value s)
               \<and> (\<forall>x\<in>set post. res_value x < res_value s)
               \<and> download_highest_resolution_progressive YouTube url resolution_arg target w
                   = download s target None (print ''Downloading highest resolution progressive stream...'' w)"
    if "?ranked \<noteq> []"
  proof -
    from that obtain s where s: "?sel = Some s"
      using ranked by (simp add: last_stream_order_by del: not_None_eq)
    from last_stream_order_by_Some [OF s] obtain pre post where
      "?ranked = pre @ s # post" "\<forall>x\<in>set pre. res_value x \<le> res_value s"
      "\<forall>x\<in>set post. res_value x < res_value s"
      unfolding ranked res_value_def by blast
    moreover from s have "download_highest_resolution_progressive YouTube url resolution_arg target w
                   = download s target None (print ''Downloading highest resolution progressive stream...'' w)"
      by (simp add: download_highest_resolution_progressive_def)
    ultimately show ?thesis by blast
  qed
  from a b c show ?thesis
    unfolding Let_def by (simp del: not_None_eq)
qed

theorem download_highest_resolution_progressive_selects_witness:
  "transfers (download_highest_resolution_progressive (example_youtube progressive_catalog)
       ''u'' ''720p'' None (example_world [])) = [(22, ''/home/u/clip22.mp4'')]
   \<and> (let q = streams (example_youtube progressive_catalog ''u'');
          w1 = print ''Downloading highest resolution progressive stream...'' (example_world []);
          ranked = filter (\<lambda>s. is_progressive s \<and> resolution s \<noteq> None) q
      in ((\<forall>s\<in>set q. \<not> is_progressive s) \<longrightarrow> ranked = [])
       \<and> (if ranked = []
           then download_highest_resolution_progressive (example_youtube progressive_catalog)
                  ''u'' ''720p'' None (example_world [])
                  = print ''No progressive stream found.'' w1
           else \<exists>pre s post. ranked = pre @ s # post
                  \<and> (\<forall>x\<in>set pre. res_value x \<le> res_value s)
                  \<and> (\<forall>x\<in>set post. res_value x < res_value s)
                  \<and> download_highest_resolution_progressive (example_youtube progressive_catalog)
                      ''u'' ''720p'' None (example_world [])
                      = download s None None w1))"
proof -
  have "transfers (download_highest_resolution_progressive (example_youtube progressive_catalog)
       ''u'' ''720p'' None (example_world [])) = [(22, ''/home/u/clip22.mp4'')]"
    by code_simp
  then show ?thesis
    by (intro conjI download_highest_resolution_progressive_selects)
qed

text \<open>
  C3 (as amended): an explicit resolution selects the first stream in the catalog's native
  ordering that has the given resolution, and NotFound when there is none: restricted to
  non-progressive streams in \<open>ffmpeg_process\<close> (where the resolution "best" is not an
  explicit one), of any kind in \<open>download_by_resolution\<close>.
\<close>

theorem explicit_resolution_selects:
  "(r \<noteq> ''best'' \<longrightarrow>
      ffmpeg_video_stream q (Some r) = Inr (find (\<lambda>s. \<not> is_progressive s \<and> resolution s = Some r) q))
   \<and> download_by_resolution YouTube url r target w =
       (case find (\<lambda>s. resolution s = Some r) (streams (YouTube url)) of
          None \<Rightarrow> print (''No stream found for resolution '' @ r) (print (''Downloading '' @ r @ ''...'') w)
        | Some s \<Rightarrow> download s target None (print (''Downloading '' @ r @ ''...'') w))"
  by (simp add: ffmpeg_video_stream_def download_by_resolution_def filter_streams_def
      first_filter_find Let_def split: option.split)

theorem explicit_resolution_selects_witness:
  "''720p'' \<noteq> ''best''
   \<and> ffmpeg_video_stream mixed_catalog (Some ''720p'')
       = Inr (Some (example_stream 136 ''mp4'' (Some ''720p'') None False))"
proof -
  have "find (\<lambda>s. \<not> is_progressive s \<and> resolution s = Some ''720p'') mixed_catalog
          = Some (example_stream 136 ''mp4'' (Some ''720p'') None False)"
    by code_simp
  then show ?thesis
    using explicit_resolution_selects [of "''720p''" mixed_catalog] by simp
qed

text \<open>
  C3 as stated fails for \<open>download_by_resolution\<close>, which does not filter on the kind:
  with a progressive and an adaptive stream at 720p it downloads the progressive one,
  while the first non-progressive stream at 720p is itag 136.
\<close>

theorem download_by_resolution_counterexample:
  "transfers (download_by_resolution (example_youtube mixed_catalog) ''u'' ''720p'' None
       (example_world [])) = [(22, ''/home/u/clip22.mp4'')]
   \<and> is_progressive (example_stream 22 ''mp4'' (Some ''720p'') (Some ''192kbps'') True)
   \<and> find (\<lambda>s. \<not> is_progressive s \<and> resolution s = Some ''720p'') mixed_catalog
       = Some (example_stream 136 ''mp4'' (Some ''720p'') None False)"
  by code_simp

text \<open>
  C2: on the "best" path \<open>ffmpeg_process\<close> reads \<open>mp4_stream.resolution\<close> before it
  chooses. For a catalog whose only non-progressive video stream is webm the mp4 query is
  empty, \<open>last()\<close> gives \<open>None\<close>, and the routine raises \<open>AttributeError\<close> where the
  overall highest stream (itag 248) should have been selected.
\<close>

theorem ffmpeg_process_no_mp4_raises:
  "ffmpeg_video_stream webm_catalog None = Inl AttributeError
   \<and> ffmpeg_process (example_youtube webm_catalog) ''u'' None (Some ''/d'') (example_world [])
       = Inl AttributeError"
  by code_simp

text \<open>
  C1: when the catalog has no non-progressive stream, the "best" path of
  \<open>ffmpeg_process\<close> does not reach its "No streams found" message: it raises
  \<open>AttributeError\<close> on \<open>highest_quality_stream.resolution\<close>.
\<close>

theorem ffmpeg_process_best_not_found_raises:
  "ffmpeg_process (example_youtube progressive_catalog) ''u'' (Some ''best'') (Some ''/d'')
       (example_world []) = Inl AttributeError
   \<and> ffmpeg_process (example_youtube []) ''u'' None None (example_world []) = Inl AttributeError"
  by code_simp

text \<open>
  What the "best" path selects when both of its queries find a stream: the mp4 stream if
  its resolution equals that of the overall highest stream, the overall highest otherwise.
\<close>

lemma ffmpeg_video_stream_best:
  assumes "r = None \<or> r = Some ''best''"
    and "last_stream (order_by resolution (filter_streams (Some False) None None q)) = Some h"
    and "last_stream (order_by resolution (filter_streams (Some False) (Some ''mp4'') None q)) = Some m"
  shows "ffmpeg_video_stream q r = Inr (Some (if resolution h = resolution m then m else h))"
  using assms by (auto simp: ffmpeg_video_stream_def)

text \<open>
  The routines that do report NotFound: one printed line, nothing transferred, and the
  routine returns.
\<close>

lemma not_found_is_reported:
  "first (filter_streams None None (Some r) (streams (YouTube url))) = None \<Longrightarrow>
     download_by_resolution YouTube url r target w
       = print (''No stream found for resolution '' @ r) (print (''Downloading '' @ r @ ''...'') w)"
  "last_stream (order_by resolution (filter_streams (Some True) None None (streams (YouTube url)))) = None \<Longrightarrow>
     download_highest_resolution_progressive YouTube url r target w
       = print ''No progressive stream found.''
           (print ''Downloading highest resolution progressive stream...'' w)"
  "get_by_itag i (streams (YouTube url)) = None \<Longrightarrow>
     download_by_itag YouTube url i target w
       = print (''No stream found with itag '' @ str_int i @ ''.'') w"
  "r \<noteq> ''best'' \<Longrightarrow> first (filter_streams (Some False) None (Some r) (streams (YouTube url))) = None \<Longrightarrow>
     ffmpeg_process YouTube url (Some r) target w
       = Inr (print (''No streams found for resolution '' @ r) w)"
  by (simp_all add: download_by_resolution_def download_highest_resolution_progressive_def
      download_by_itag_def ffmpeg_process_def ffmpeg_video_stream_def str_optional_def Let_def)

section \<open>Running the download routines again\<close>

lemma str_nat_digits: "c \<in> set (str_nat n) \<Longrightarrow> is_digit c"
proof (induction n rule: str_nat.induct)
  case (1 n)
  have dig: "is_digit (digit_char d)" if "d < 10" for d
    using that by (simp add: is_digit_def digit_char_def)
  show ?case
  proof (cases "n < 10")
    case True
    with "1.prems" show ?thesis
      using dig [of n] by (subst (asm) str_nat.simps) simp
  next
    case False
    with "1.prems" have "c \<in> set (str_nat (n div 10)) \<or> c = digit_char (n mod 10)"
      by (subst (asm) str_nat.simps) auto
    then show ?thesis
      using "1.IH" False dig [of "n mod 10"] by auto
  qed
qed

lemma dot_not_in_str_nat: "CHR ''.'' \<notin> set (str_nat n)"
  using str_nat_digits [of "CHR ''.''" n] by (auto simp: is_digit_def)

lemma sep_not_in_str_nat: "CHR ''/'' \<notin> set (str_nat n)"
  using str_nat_digits [of "CHR ''/''" n] by (auto simp: is_digit_def)

lemma unique_name_cong:
  assumes "\<forall>k. unique_file_path b st m t k \<in> set fs' \<longleftrightarrow> unique_file_path b st m t k \<in> set fs"
  shows "unique_name b st m t fs' = unique_name b st m t fs"
proof -
  let ?p = "unique_file_path b st m t"
  obtain c where c: "unique_name b st m t fs = unique_file_name b m c"
      "?p c \<notin> set fs" "\<forall>k. k < c \<longrightarrow> ?p k \<in> set fs"
    using unique_name_loop_spec [of 0 b st m t fs] by (auto simp: unique_name_def)
  have "\<forall>k<c. ?p k \<in> set fs'" "?p c \<notin> set fs'"
    using c(2,3) assms by auto
  obtain c' where c': "unique_name b st m t fs' = unique_file_name b m c'"
      "?p c' \<notin> set fs'" "\<forall>k. k < c' \<longrightarrow> ?p k \<in> set fs'"
    using unique_name_loop_spec [of 0 b st m t fs'] by (auto simp: unique_name_def)
  have "c' = c"
    using c' \<open>\<forall>k<c. ?p k \<in> set fs'\<close> \<open>?p c \<notin> set fs'\<close> by (meson nat_neq_iff)
  with c(1) c'(1) show ?thesis by simp
qed

lemma count_sep_simps:
  "count_sep (xs @ ys) = count_sep xs + count_sep ys"
  "count_sep [] = 0"
  "count_sep (c # xs) = (if c = CHR ''/'' then 1 else 0) + count_sep xs"
  by (simp_all add: count_sep_def)

lemma count_sep_str_nat: "count_sep (str_nat n) = 0"
  using sep_not_in_str_nat [of n] by (auto simp: count_sep_def filter_empty_conv)

lemma startswith_sep_name:
  "startswith_sep (unique_file_name b m c @ r) = startswith_sep (b @ ''_'')"
  unfolding unique_file_name_def append_assoc append_Cons append_Nil
  by (subst startswith_sep_append_Cons) (rule refl)

lemma not_candidate_name:
  assumes "m1 = ''video'' \<or> m1 = ''audio''" "m2 = ''video'' \<or> m2 = ''audio''"
  shows "path_join t (unique_file_name b m1 c) \<noteq> unique_file_path b ''mp4'' m2 t k"
proof
  assume eq: "path_join t (unique_file_name b m1 c) = unique_file_path b ''mp4'' m2 t k"
  have hd: "startswith_sep (unique_file_name b m1 c)
          = startswith_sep (unique_file_name b m2 k @ ''.'' @ ''mp4'')"
    using startswith_sep_name [of b m1 c "[]"] startswith_sep_name [of b m2 k "''.'' @ ''mp4''"]
    by simp
  from eq have "unique_file_name b m1 c = unique_file_name b m2 k @ ''.'' @ ''mp4''"
    unfolding unique_file_path_def by (rule path_join_same_head [OF hd])
  then have "m1 @ ''_'' @ str_nat c = m2 @ ''_'' @ str_nat k @ ''.mp4''"
    by (simp add: unique_file_name_def)
  with assms have "str_nat c = str_nat k @ ''.mp4''"
    by auto
  then have "CHR ''.'' \<in> set (str_nat c)" by simp
  then show False by (simp add: dot_not_in_str_nat)
qed

lemma path_join_cases:
  "path_join t n = n \<or> path_join t n = t @ n \<or> path_join t n = t @ ''/'' @ n"
  by (simp add: path_join_def)

lemma not_candidate_output:
  assumes "m = ''video'' \<or> m = ''audio''"
  shows "t @ ''/'' @ b @ ''.mp4'' \<noteq> unique_file_path b ''mp4'' m t k"
proof
  assume eq: "t @ ''/'' @ b @ ''.mp4'' = unique_file_path b ''mp4'' m t k"
  let ?n = "unique_file_name b m k @ ''.'' @ ''mp4''"
  have cn: "count_sep ?n = count_sep b"
    using assms by (auto simp: unique_file_name_def count_sep_simps count_sep_str_nat)
  have cl: "count_sep (t @ ''/'' @ b @ ''.mp4'') = count_sep t + 1 + count_sep b"
    by (simp add: count_sep_simps)
  from eq have e: "t @ ''/'' @ b @ ''.mp4'' = path_join t ?n"
    by (simp only: unique_file_path_def)
  consider (abs) "path_join t ?n = ?n" | (cat) "path_join t ?n = t @ ?n"
    | (sep) "path_join t ?n = t @ ''/'' @ ?n"
    using path_join_cases [of t ?n] by blast
  then show False
  proof cases
    case abs
    from e abs have "t @ ''/'' @ b @ ''.mp4'' = ?n"
      by (rule trans)
    then have "count_sep (t @ ''/'' @ b @ ''.mp4'') = count_sep ?n"
      by (rule arg_cong)
    with cn cl show False by simp
  next
    case cat
    from e cat have "t @ ''/'' @ b @ ''.mp4'' = t @ ?n"
      by (rule trans)
    then have "count_sep (t @ ''/'' @ b @ ''.mp4'') = count_sep (t @ ?n)"
      by (rule arg_cong)
    with cn cl show False by (simp add: count_sep_simps)
  next
    case sep
    with e have "b @ ''.mp4'' = ?n"
      by simp
    then show False
      by (simp add: unique_file_name_def)
  qed
qed

lemma or_else_idem: "or_else (Some (or_else t c)) c = or_else t c"
  by (simp add: or_else_def split: option.split)

lemma unique_name_nonempty: "unique_name b st m t fs \<noteq> []"
  using unique_name_loop_spec [of 0 b st m t fs]
  by (auto simp: unique_name_def unique_file_name_def)

lemma print_fields [simp]:
  "cwd (print s w) = cwd w" "files (print s w) = files w"
  "transfers (print s w) = transfers w" "commands (print s w) = commands w"
  "stdout (print s w) = stdout w @ [s @ [CHR 0x0A]]"
  by (simp_all add: print_def)

lemma get_file_path_cwd:
  "cwd w' = cwd w \<Longrightarrow> get_file_path s f t w' = get_file_path s f t w"
  by (simp add: get_file_path_def)

lemma download_present:
  assumes "get_file_path s f t w \<in> set (files w)"
  shows "download s t f w
     = print (''Already downloaded at:'' @ [CHR 0x0A] @ get_file_path s f t w)
         (print (download_header s f) w)"
  using assms
  by (simp add: download_def Let_def exists_at_path_def download_header_def
      get_file_path_cwd [of "print x w" w for x])

lemma download_cwd [simp]: "cwd (download s t f w) = cwd w"
  by (simp add: download_def Let_def stdout_write_def stream_download_def)

lemma download_commands [simp]: "commands (download s t f w) = commands w"
  by (simp add: download_def Let_def stdout_write_def stream_download_def)

lemma download_files:
  "set (files (download s t f w)) = insert (get_file_path s f t w) (set (files w))"
  by (auto simp: download_def Let_def stdout_write_def stream_download_def exists_at_path_def
      get_file_path_cwd [of "print x w" w for x])

lemma download_transfers:
  "transfers (download s t f w) =
     (if get_file_path s f t w \<in> set (files w) then transfers w
      else transfers w @ [(itag s, get_file_path s f t w)])"
  by (simp add: download_def Let_def stdout_write_def stream_download_def exists_at_path_def
      get_file_path_cwd [of "print x w" w for x])

lemma download_again:
  "download s t f (download s t f w)
     = print (''Already downloaded at:'' @ [CHR 0x0A] @ get_file_path s f t w)
         (print (download_header s f) (download s t f w))"
  using download_present [of s f t "download s t f w"]
  by (simp add: download_files get_file_path_cwd [of "download s t f w" w])

lemma download_after_print_again:
  "download s t f (print x (download s t f (print x w)))
     = print (''Already downloaded at:'' @ [CHR 0x0A] @ get_file_path s f t w)
         (print (download_header s f) (print x (download s t f (print x w))))"
  using download_present [of s f t "print x (download s t f (print x w))"]
  by (simp add: download_files get_file_path_cwd [of "print x (download s t f (print x w))" w]
      get_file_path_cwd [of "print x w" w])

lemma download_by_resolution_again:
  "transfers (download_by_resolution YouTube url r t (download_by_resolution YouTube url r t w))
     = transfers (download_by_resolution YouTube url r t w)"
  by (simp add: download_by_resolution_def Let_def download_after_print_again split: option.split)

lemma download_highest_resolution_progressive_again:
  "transfers (download_highest_resolution_progressive YouTube url r t
       (download_highest_resolution_progressive YouTube url r t w))
     = transfers (download_highest_resolution_progressive YouTube url r t w)"
  by (simp add: download_highest_resolution_progressive_def Let_def download_after_print_again
      split: option.split)

lemma download_by_itag_again:
  "transfers (download_by_itag YouTube url i t (download_by_itag YouTube url i t w))
     = transfers (download_by_itag YouTube url i t w)"
  by (simp add: download_by_itag_def Let_def download_after_print_again split: option.split)

lemma subprocess_run_fields [simp]:
  "cwd (subprocess_run c w) = cwd w" "files (subprocess_run c w) = last c # files w"
  "transfers (subprocess_run c w) = transfers w"
  by (simp_all add: subprocess_run_def)

lemma last_ffmpeg_command [simp]:
  "last (ffmpeg_command vp ap t b) = t @ ''/'' @ b @ ''.mp4''"
  by (simp add: ffmpeg_command_def)

lemma get_file_path_named:
  "get_file_path s (Some (unique_name b st m (or_else t (cwd w)) fs)) (Some (or_else t (cwd w))) w
     = path_join (or_else t (cwd w)) (unique_name b st m (or_else t (cwd w)) fs)"
  using unique_name_nonempty [of b st m "or_else t (cwd w)" fs]
  by (simp add: get_file_path_def or_else_idem) (simp add: or_else_def)

lemma ffmpeg_process_found:
  assumes "ffmpeg_video_stream (streams (YouTube url)) r = Inr (Some v)"
    and "ffmpeg_audio_stream (streams (YouTube url)) = Some a"
  shows "ffmpeg_process YouTube url r target w =
     (let target_dir = or_else target (cwd w);
          video_file_name = unique_name (title (YouTube url)) ''mp4'' ''video'' target_dir (files w);
          audio_file_name = unique_name (title (YouTube url)) ''mp4'' ''audio'' target_dir (files w);
          video_path = path_join target_dir video_file_name;
          audio_path = path_join target_dir audio_file_name
      in if video_path \<in> set (files w) \<and> audio_path \<in> set (files w)
         then Inr (print ''Already downloaded both video and audio.'' w)
         else Inr (subprocess_run (ffmpeg_command video_path audio_path target_dir (title (YouTube url)))
                (download a (Some target_dir) (Some audio_file_name)
                  (download v (Some target_dir) (Some video_file_name) w))))"
  using assms by (simp add: ffmpeg_process_def Let_def get_file_path_named)

lemma unique_name_is_name: "\<exists>c. unique_name b st m t fs = unique_file_name b m c"
  using unique_name_loop_spec [of 0 b st m t fs] by (auto simp: unique_name_def)

lemma video_path_not_audio_path:
  "path_join t (unique_file_name b ''video'' c) \<noteq> path_join t (unique_file_name b ''audio'' k)"
proof
  assume eq: "path_join t (unique_file_name b ''video'' c) = path_join t (unique_file_name b ''audio'' k)"
  have hd: "startswith_sep (unique_file_name b ''video'' c) = startswith_sep (unique_file_name b ''audio'' k)"
    using startswith_sep_name [of b "''video''" c "[]"] startswith_sep_name [of b "''audio''" k "[]"]
    by simp
  from hd eq have "unique_file_name b ''video'' c = unique_file_name b ''audio'' k"
    by (rule path_join_same_head)
  then show False by (simp add: unique_file_name_def)
qed

lemma unique_name_after_run:
  assumes m: "m = ''video'' \<or> m = ''audio''"
    and fs': "set fs' = {t @ ''/'' @ b @ ''.mp4'',
                path_join t (unique_name b ''mp4'' ''audio'' t fs),
                path_join t (unique_name b ''mp4'' ''video'' t fs)} \<union> set fs"
  shows "unique_name b ''mp4'' m t fs' = unique_name b ''mp4'' m t fs"
proof (rule unique_name_cong, intro allI)
  fix k
  obtain cv ca where n: "unique_name b ''mp4'' ''video'' t fs = unique_file_name b ''video'' cv"
      "unique_name b ''mp4'' ''audio'' t fs = unique_file_name b ''audio'' ca"
    using unique_name_is_name by blast
  have "unique_file_path b ''mp4'' m t k \<noteq> t @ ''/'' @ b @ ''.mp4''"
    using not_candidate_output [OF m, of t b k] by simp
  moreover have "unique_file_path b ''mp4'' m t k \<noteq> path_join t (unique_file_name b ''audio'' ca)"
    using not_candidate_name [of "''audio''" m t b ca k] m by simp
  moreover have "unique_file_path b ''mp4'' m t k \<noteq> path_join t (unique_file_name b ''video'' cv)"
    using not_candidate_name [of "''video''" m t b cv k] m by simp
  ultimately show "unique_file_path b ''mp4'' m t k \<in> set fs' \<longleftrightarrow> unique_file_path b ''mp4'' m t k \<in> set fs"
    unfolding fs' n by simp
qed

lemma ffmpeg_process_again:
  assumes first_run: "ffmpeg_process YouTube url r target w = Inr w1"
  shows "ffmpeg_process YouTube url r target w1 =
     Inr (print (if ffmpeg_video_stream (streams (YouTube url)) r = Inr None
                 then ''No streams found for resolution '' @ str_optional r
                 else ''Already downloaded both video and audio.'') w1)"
proof (cases "ffmpeg_video_stream (streams (YouTube url)) r")
  case (Inl e)
  with first_run show ?thesis by (simp add: ffmpeg_process_def)
next
  case (Inr sel)
  show ?thesis
  proof (cases sel)
    case None
    with Inr show ?thesis by (simp add: ffmpeg_process_def)
  next
    case (Some v)
    with Inr have v: "ffmpeg_video_stream (streams (YouTube url)) r = Inr (Some v)" by simp
    obtain a where a: "ffmpeg_audio_stream (streams (YouTube url)) = Some a"
      using first_run v by (cases "ffmpeg_audio_stream (streams (YouTube url))")
        (simp_all add: ffmpeg_process_def Let_def)
    note found = ffmpeg_process_found [where YouTube = YouTube and url = url, OF v a]
    let ?T = "or_else target (cwd w)"
    let ?b = "title (YouTube url)"
    let ?nv = "unique_name ?b ''mp4'' ''video'' ?T (files w)"
    let ?na = "unique_name ?b ''mp4'' ''audio'' ?T (files w)"
    let ?vp = "path_join ?T ?nv"
    let ?ap = "path_join ?T ?na"
    have cwd1: "cwd w1 = cwd w"
      using first_run by (auto simp: found Let_def split: if_splits)
    have names: "unique_name ?b ''mp4'' ''video'' ?T (files w1) = ?nv
               \<and> unique_name ?b ''mp4'' ''audio'' ?T (files w1) = ?na
               \<and> ?vp \<in> set (files w1) \<and> ?ap \<in> set (files w1)"
    proof (cases "?vp \<in> set (files w) \<and> ?ap \<in> set (files w)")
      case True
      with first_run have "w1 = print ''Already downloaded both video and audio.'' w"
        by (simp add: found Let_def)
      with True show ?thesis by simp
    next
      case False
      with first_run have w1: "w1 = subprocess_run (ffmpeg_command ?vp ?ap ?T ?b)
                (download a (Some ?T) (Some ?na) (download v (Some ?T) (Some ?nv) w))"
        by (simp add: found Let_def)
      have fs: "set (files w1) = {?T @ ''/'' @ ?b @ ''.mp4'', ?ap, ?vp} \<union> set (files w)"
        unfolding w1
        by (simp add: download_files get_file_path_named
            get_file_path_cwd [of "download v (Some ?T) (Some ?nv) w" w])
      have "unique_name ?b ''mp4'' ''video'' ?T (files w1) = ?nv"
        by (rule unique_name_after_run [OF _ fs]) simp
      moreover have "unique_name ?b ''mp4'' ''audio'' ?T (files w1) = ?na"
        by (rule unique_name_after_run [OF _ fs]) simp
      ultimately show ?thesis using fs by simp
    qed
    show ?thesis
      using names v by (simp add: found Let_def cwd1)
  qed
qed

lemma ffmpeg_process_transfers:
  assumes v: "ffmpeg_video_stream (streams (YouTube url)) r = Inr (Some v)"
    and a: "ffmpeg_audio_stream (streams (YouTube url)) = Some a"
  shows "let target_dir = or_else target (cwd w);
             video_path = path_join target_dir
               (unique_name (title (YouTube url)) ''mp4'' ''video'' target_dir (files w));
             audio_path = path_join target_dir
               (unique_name (title (YouTube url)) ''mp4'' ''audio'' target_dir (files w))
         in \<exists>w1. ffmpeg_process YouTube url r target w = Inr w1
              \<and> transfers w1 = transfers w
                   @ (if video_path \<in> set (files w) then [] else [(itag v, video_path)])
                   @ (if audio_path \<in> set (files w) then [] else [(itag a, audio_path)])"
proof -
  note found = ffmpeg_process_found [where YouTube = YouTube and url = url, OF v a]
  let ?T = "or_else target (cwd w)"
  let ?b = "title (YouTube url)"
  let ?nv = "unique_name ?b ''mp4'' ''video'' ?T (files w)"
  let ?na = "unique_name ?b ''mp4'' ''audio'' ?T (files w)"
  have ne: "path_join ?T ?na \<noteq> path_join ?T ?nv"
    using unique_name_is_name [of ?b "''mp4''" "''video''" ?T "files w"]
      unique_name_is_name [of ?b "''mp4''" "''audio''" ?T "files w"]
      video_path_not_audio_path [of ?T ?b]
    by (metis (no_types))
  show ?thesis
    unfolding Let_def found
    using ne
    by (simp add: download_transfers download_files get_file_path_named
        get_file_path_cwd [of "download v (Some ?T) (Some ?nv) w" w])
qed

text \<open>
  C4 (as amended): a second run with the same video, policy and target directory, after a
  first run that returned normally, transfers nothing and only prints: "Already downloaded
  at: ..." from \<open>_download\<close> on the single-stream paths, "Already downloaded both video
  and audio." on the dual-stream path (or the NotFound message again when no stream
  matched). The first run performs one transfer for each selected stream whose resolved
  path is not on disk yet: at most one on the single-stream paths, and on the dual-stream
  path the video and then the audio stream, two transfers in a directory that holds
  neither file.
\<close>

theorem rerun_transfers_nothing:
  "download s target filename (download s target filename w)
      = print (''Already downloaded at:'' @ [CHR 0x0A] @ get_file_path s filename target w)
          (print (download_header s filename) (download s target filename w))
   \<and> transfers (download s target filename w)
      = (if get_file_path s filename target w \<in> set (files w) then transfers w
         else transfers w @ [(itag s, get_file_path s filename target w)])
   \<and> transfers (download_by_resolution YouTube url res target
          (download_by_resolution YouTube url res target w))
      = transfers (download_by_resolution YouTube url res target w)
   \<and> transfers (download_highest_resolution_progressive YouTube url res target
          (download_highest_resolution_progressive YouTube url res target w))
      = transfers (download_highest_resolution_progressive YouTube url res target w)
   \<and> transfers (download_by_itag YouTube url i target (download_by_itag YouTube url i target w))
      = transfers (download_by_itag YouTube url i target w)
   \<and> (ffmpeg_process YouTube url r target w = Inr w1 \<longrightarrow>
        ffmpeg_process YouTube url r target w1
          = Inr (print (if ffmpeg_video_stream (streams (YouTube url)) r = Inr None
                        then ''No streams found for resolution '' @ str_optional r
                        else ''Already downloaded both video and audio.'') w1))
   \<and> (ffmpeg_video_stream (streams (YouTube url)) r = Inr (Some v)
        \<and> ffmpeg_audio_stream (streams (YouTube url)) = Some a \<longrightarrow>
        (let target_dir = or_else target (cwd w);
             video_path = path_join target_dir
               (unique_name (title (YouTube url)) ''mp4'' ''video'' target_dir (files w));
             audio_path = path_join target_dir
               (unique_name (title (YouTube url)) ''mp4'' ''audio'' target_dir (files w))
         in \<exists>w'. ffmpeg_process YouTube url r target w = Inr w'
              \<and> transfers w' = transfers w
                   @ (if video_path \<in> set (files w) then [] else [(itag v, video_path)])
                   @ (if audio_path \<in> set (files w) then [] else [(itag a, audio_path)])))"
  using download_again [of s target filename w] download_transfers [of s target filename w]
    download_by_resolution_again [of YouTube url res target w]
    download_highest_resolution_progressive_again [of YouTube url res target w]
    download_by_itag_again [of YouTube url i target w]
    ffmpeg_process_again [of YouTube url r target w w1]
    ffmpeg_process_transfers [where YouTube = YouTube and url = url, of r v a target w]
  by (intro conjI impI) (simp_all only: simp_thms)

theorem rerun_transfers_nothing_witness:
  "ffmpeg_process (example_youtube adaptive_catalog) ''u'' (Some ''best'') (Some ''/d'') (example_world [])
     = Inr (projr (ffmpeg_process (example_youtube adaptive_catalog) ''u'' (Some ''best'') (Some ''/d'')
              (example_world [])))
   \<and> transfers (projr (ffmpeg_process (example_youtube adaptive_catalog) ''u'' (Some ''best'')
        (Some ''/d'') (example_world [])))
       = [(137, ''/d/clip_video_0''), (140, ''/d/clip_audio_0'')]
   \<and> ffmpeg_process (example_youtube adaptive_catalog) ''u'' (Some ''best'') (Some ''/d'')
        (projr (ffmpeg_process (example_youtube adaptive_catalog) ''u'' (Some ''best'') (Some ''/d'')
              (example_world [])))
       = Inr (print ''Already downloaded both video and audio.''
           (projr (ffmpeg_process (example_youtube adaptive_catalog) ''u'' (Some ''best'') (Some ''/d'')
              (example_world []))))"
proof -
  let ?run = "ffmpeg_process (example_youtube adaptive_catalog) ''u'' (Some ''best'') (Some ''/d'')"
  have ok: "\<not> isl (?run (example_world []))"
    by code_simp
  then have first_run: "?run (example_world []) = Inr (projr (?run (example_world [])))"
    by simp
  have tr: "transfers (projr (?run (example_world [])))
       = [(137, ''/d/clip_video_0''), (140, ''/d/clip_audio_0'')]"
    by code_simp
  have sel: "ffmpeg_video_stream (streams (example_youtube adaptive_catalog ''u'')) (Some ''best'')
       \<noteq> Inr None"
    by code_simp
  from rerun_transfers_nothing [where YouTube = "example_youtube adaptive_catalog" and url = "''u''"
      and r = "Some ''best''" and target = "Some ''/d''" and w = "example_world []"
      and ?w1.0 = "projr (?run (example_world []))"]
  have "?run (projr (?run (example_world [])))
       = Inr (print ''Already downloaded both video and audio.'' (projr (?run (example_world []))))"
    using first_run sel by (simp only: simp_thms if_False)
  with first_run tr show ?thesis
    by (intro conjI)
qed

text \<open>
  C4 as stated fails on the dual-stream path: in an empty directory the first run
  transfers the video and the audio stream, so the two runs together perform two
  transfers, not one.
\<close>

theorem ffmpeg_process_two_transfers_counterexample:
  "\<not> isl (ffmpeg_process (example_youtube adaptive_catalog) ''u'' (Some ''best'') (Some ''/d'')
            (example_world []))
   \<and> \<not> isl (ffmpeg_process (example_youtube adaptive_catalog) ''u'' (Some ''best'') (Some ''/d'')
        (projr (ffmpeg_process (example_youtube adaptive_catalog) ''u'' (Some ''best'') (Some ''/d'')
              (example_world []))))
   \<and> transfers (projr (ffmpeg_process (example_youtube adaptive_catalog) ''u'' (Some ''best'') (Some ''/d'')
        (projr (ffmpeg_process (example_youtube adaptive_catalog) ''u'' (Some ''best'') (Some ''/d'')
              (example_world [])))))
       = [(137, ''/d/clip_video_0''), (140, ''/d/clip_audio_0'')]"
  by code_simp

section \<open>The playlist branch of \<open>main\<close>\<close>

text \<open>
  C9: with \<open>--playlist\<close> given and \<open>--audio\<close> not given, the playlist block of
  \<open>main\<close> only prints "Downloading playlist: <url>" and "Playlist processed
  successfully!": whatever the playlist contains, \<open>main\<close> is the URL block followed by
  these two lines, and without \<open>--url\<close> the files on disk and the transfers are left
  as they were (\<open>download_playlist_video\<close> is not called).
\<close>

theorem main_playlist_video_only_prints:
  "arg_playlist a = Some p \<and> p \<noteq> [] \<and> \<not> arg_audio a \<longrightarrow>
     main_playlist Playlist get_audio_only a w
       = Inr (print (''Playlist processed successfully!'' @ [CHR 0x0A])
               (print (''Downloading playlist: '' @ p) w))
   \<and> main YouTube Playlist get_highest_resolution get_audio_only a w
       = (case main_url YouTube get_highest_resolution get_audio_only a w of
            Inl e \<Rightarrow> Inl e
          | Inr w1 \<Rightarrow> Inr (print (''Playlist processed successfully!'' @ [CHR 0x0A])
                           (print (''Downloading playlist: '' @ p) w1)))
   \<and> (\<not> truthy (arg_url a) \<longrightarrow>
        (\<exists>w'. main YouTube Playlist get_highest_resolution get_audio_only a w = Inr w'
           \<and> files w' = files w \<and> transfers w' = transfers w \<and> commands w' = commands w
           \<and> stdout w' = stdout w @ [''Downloading playlist: '' @ p @ [CHR 0x0A],
                                       ''Playlist processed successfully!'' @ [CHR 0x0A, CHR 0x0A]]))"
  by (simp add: main_def main_playlist_def main_url_def truthy_def split: sum.split)

text \<open>
  A playlist of one video with a downloadable stream: in video mode nothing is
  transferred, although \<open>download_playlist_video\<close> on the same playlist would transfer
  the stream.
\<close>

theorem main_playlist_video_only_prints_witness:
  "arg_playlist \<lparr>arg_url = None, arg_playlist = Some ''PL1'', arg_audio = False\<rparr> = Some ''PL1''
   \<and> ''PL1'' \<noteq> []
   \<and> \<not> arg_audio \<lparr>arg_url = None, arg_playlist = Some ''PL1'', arg_audio = False\<rparr>
   \<and> \<not> truthy (arg_url \<lparr>arg_url = None, arg_playlist = Some ''PL1'', arg_audio = False\<rparr>)
   \<and> (\<exists>w'. main (example_youtube progressive_catalog) (\<lambda>u. [example_youtube progressive_catalog u])
              first first \<lparr>arg_url = None, arg_playlist = Some ''PL1'', arg_audio = False\<rparr>
              (example_world []) = Inr w'
           \<and> files w' = [] \<and> transfers w' = []
           \<and> stdout w' = [''Downloading playlist: PL1'' @ [CHR 0x0A],
                           ''Playlist processed successfully!'' @ [CHR 0x0A, CHR 0x0A]])
   \<and> map_sum id transfers (download_playlist_video (\<lambda>u. [example_youtube progressive_catalog u])
          first ''PL1'' (example_world [])) = Inr [(18, ''/home/u/clip18.mp4'')]"
proof -
  let ?a = "\<lparr>arg_url = None, arg_playlist = Some ''PL1'', arg_audio = False\<rparr>"
  have h: "arg_playlist ?a = Some ''PL1'' \<and> ''PL1'' \<noteq> [] \<and> \<not> arg_audio ?a" "\<not> truthy (arg_url ?a)"
    by (simp_all add: truthy_def)
  have e: "map_sum id transfers (download_playlist_video (\<lambda>u. [example_youtube progressive_catalog u])
          first ''PL1'' (example_world [])) = Inr [(18, ''/home/u/clip18.mp4'')]"
    by code_simp
  let ?m = "main (example_youtube progressive_catalog) (\<lambda>u. [example_youtube progressive_catalog u])
              first first ?a (example_world [])"
  from main_playlist_video_only_prints [of ?a "''PL1''" "\<lambda>u. [example_youtube progressive_catalog u]"
      first "example_world []" "example_youtube progressive_catalog" first] h
  have "\<exists>w'. ?m = Inr w'
           \<and> files w' = files (example_world []) \<and> transfers w' = transfers (example_world [])
           \<and> commands w' = commands (example_world [])
           \<and> stdout w' = stdout (example_world []) @ [''Downloading playlist: '' @ ''PL1'' @ [CHR 0x0A],
                                       ''Playlist processed successfully!'' @ [CHR 0x0A, CHR 0x0A]]"
    by blast
  then obtain w' where "?m = Inr w'" "files w' = []" "transfers w' = []"
      "stdout w' = [''Downloading playlist: PL1'' @ [CHR 0x0A],
                           ''Playlist processed successfully!'' @ [CHR 0x0A, CHR 0x0A]]"
    by (auto simp: example_world_def)
  then have "\<exists>w'. ?m = Inr w'
           \<and> files w' = [] \<and> transfers w' = []
           \<and> stdout w' = [''Downloading playlist: PL1'' @ [CHR 0x0A],
                           ''Playlist processed successfully!'' @ [CHR 0x0A, CHR 0x0A]]"
    by blast
  with h e show ?thesis
    by (intro conjI) simp_all
qed

section \<open>Which calls of the progress renderer raise\<close>




end
